theory Spec2Isabelle
  imports Main
begin

section \<open>Strings\<close>

text \<open>
  A Python \<open>str\<close> is a sequence of Unicode code points; it is modelled as the list of
  their numbers, so that \<open>len\<close> is \<open>length\<close> and every character of a decoded file is
  covered. \<open>u\<close> writes a literal of the source.
\<close>

type_synonym str = "nat list"

definition u :: "string \<Rightarrow> str" where
  "u s = map of_char s"

text \<open>
  \<open>str.isspace\<close> of one character, which is also what \<open>\s\<close> matches in a \<open>str\<close>
  pattern: U+0009..U+000D, U+001C..U+0020, U+0085, U+00A0, U+1680, U+2000..U+200A,
  U+2028, U+2029, U+202F, U+205F, U+3000.
\<close>

definition isspace :: "nat \<Rightarrow> bool" where
  "isspace c \<longleftrightarrow>
     (9 \<le> c \<and> c \<le> 13) \<or> (28 \<le> c \<and> c \<le> 32) \<or> c = 133 \<or> c = 160 \<or> c = 5760 \<or>
     (8192 \<le> c \<and> c \<le> 8202) \<or> c = 8232 \<or> c = 8233 \<or> c = 8239 \<or> c = 8287 \<or>
     c = 12288"

text \<open>\<open>s.strip()\<close>: whitespace removed at both ends.\<close>

definition strip :: "str \<Rightarrow> str" where
  "strip s = rev (dropWhile isspace (rev (dropWhile isspace s)))"

definition startswith :: "str \<Rightarrow> str \<Rightarrow> bool" where
  "startswith s p \<longleftrightarrow> take (length p) s = p"

definition endswith :: "str \<Rightarrow> str \<Rightarrow> bool" where
  "endswith s p \<longleftrightarrow> length p \<le> length s \<and> drop (length s - length p) s = p"

text \<open>\<open>content.split('\n')\<close>: the pieces between line feeds, at least one piece.\<close>

fun split_lines :: "str \<Rightarrow> str list" where
  "split_lines [] = [] # []"
| "split_lines (c # cs) =
     (if c = 10 then [] # split_lines cs
      else (case split_lines cs of l # ls \<Rightarrow> (c # l) # ls | [] \<Rightarrow> [c] # []))"

text \<open>\<open>str(n)\<close> of a non-negative integer.\<close>

fun show_nat :: "nat \<Rightarrow> str" where
  "show_nat n = (if n < 10 then [48 + n] else show_nat (n div 10) @ [48 + n mod 10])"

declare show_nat.simps [simp del]

text \<open>\<open>os.path.join(root, file)\<close> of posixpath, for two components.\<close>

definition path_join :: "str \<Rightarrow> str \<Rightarrow> str" where
  "path_join a b =
     (if startswith b (u ''/'') then b
      else if a = [] \<or> endswith a (u ''/'') then a @ b
      else a @ u ''/'' @ b)"

section \<open>The regular expression\<close>

text \<open>
  The fragment of \<open>re\<close> that \<open>export_pattern\<close> is written in, with the backtracking
  semantics of the module: \<open>ms r s g\<close> lists, in the order the matcher tries them, every
  way \<open>r\<close> matches a prefix of \<open>s\<close>, each as the unread rest of \<open>s\<close> and the text of
  group 1 (\<open>g\<close> before the match). A greedy \<open>+\<close> tries the longest run first, \<open>?\<close> tries
  the optional part before skipping it, \<open>|\<close> tries the left branch first.
\<close>

datatype cls = Space | NameChar

definition is_name_char :: "nat \<Rightarrow> bool" where
  "is_name_char c \<longleftrightarrow>
     (97 \<le> c \<and> c \<le> 122) \<or> (65 \<le> c \<and> c \<le> 90) \<or> (48 \<le> c \<and> c \<le> 57) \<or> c = 95"

fun in_cls :: "cls \<Rightarrow> nat \<Rightarrow> bool" where
  "in_cls Space c = isspace c"
| "in_cls NameChar c = is_name_char c"

datatype re = Lit str | Plus cls | Opt re | Alt re re | Seq re re | Group re

fun ms :: "re \<Rightarrow> str \<Rightarrow> str option \<Rightarrow> (str \<times> str option) list" where
  "ms (Lit w) s g = (if startswith s w then [(drop (length w) s, g)] else [])"
| "ms (Plus c) s g =
     map (\<lambda>k. (drop k s, g)) (rev [1 ..< Suc (length (takeWhile (in_cls c) s))])"
| "ms (Opt r) s g = ms r s g @ [(s, g)]"
| "ms (Alt r1 r2) s g = ms r1 s g @ ms r2 s g"
| "ms (Seq r1 r2) s g = concat (map (\<lambda>(s', g'). ms r2 s' g') (ms r1 s g))"
| "ms (Group r) s g =
     map (\<lambda>(s', g'). (s', Some (take (length s - length s') s))) (ms r s g)"

text \<open>
  \<open>pattern.search(line)\<close>: the first match at the leftmost position that has one. Of the
  match object the model keeps the start and group 1.
\<close>

datatype rmatch = Match (mstart: nat) (group1: "str option")

fun search_from :: "re \<Rightarrow> nat \<Rightarrow> str \<Rightarrow> rmatch option" where
  "search_from r p [] =
     (case ms r [] None of (_, g) # _ \<Rightarrow> Some (Match p g) | [] \<Rightarrow> None)"
| "search_from r p (c # s) =
     (case ms r (c # s) None of (_, g) # _ \<Rightarrow> Some (Match p g)
      | [] \<Rightarrow> search_from r (Suc p) s)"

declare search_from.simps [simp del]

definition re_search :: "re \<Rightarrow> str \<Rightarrow> rmatch option" where
  "re_search r s = search_from r 0 s"

text \<open>
  \<open>export\s+(?:async\s+)?(?:function|class|const|type|interface|enum)\s+([a-zA-Z0-9_]+)\<close>
\<close>

definition decl_kind :: re where
  "decl_kind =
     Alt (Lit (u ''function'')) (Alt (Lit (u ''class'')) (Alt (Lit (u ''const''))
       (Alt (Lit (u ''type'')) (Alt (Lit (u ''interface'')) (Lit (u ''enum''))))))"

definition export_pattern :: re where
  "export_pattern =
     Seq (Lit (u ''export'')) (Seq (Plus Space)
       (Seq (Opt (Seq (Lit (u ''async'')) (Plus Space)))
         (Seq decl_kind (Seq (Plus Space) (Group (Plus NameChar))))))"

section \<open>The documentation check of one export\<close>

text \<open>\<open>range(start, stop, -1)\<close>\<close>

definition range_down :: "int \<Rightarrow> int \<Rightarrow> int list" where
  "range_down start stop = map (\<lambda>k. start - int k) [0 ..< nat (start - stop)]"

text \<open>
  The body of the loop over \<open>j\<close>, as a function of the indices still to visit; the
  result is \<open>has_docstring\<close> when the loop is left. Every index the loop is run on lies
  in \<open>0 .. i - 1\<close> (lemma \<open>lookback_range_bounds\<close>), where \<open>lines[j]\<close> is \<open>lines ! nat j\<close>.
\<close>

fun lookback :: "str list \<Rightarrow> int list \<Rightarrow> bool" where
  "lookback lines [] = False"
| "lookback lines (j # js) =
     (let prev_line = strip (lines ! nat j) in
      if prev_line = [] then lookback lines js
      else if endswith prev_line (u ''*/'') \<or> startswith prev_line (u ''///'') then True
      else if startswith prev_line (u ''@'') then lookback lines js
      else False)"

definition has_docstring :: "str list \<Rightarrow> nat \<Rightarrow> bool" where
  "has_docstring lines i = lookback lines (range_down (int i - 1) (max (- 1) (int i - 10)))"

section \<open>The scan of the tree\<close>

datatype error = OSError | UnicodeDecodeError | ZeroDivisionError

text \<open>The three variables the scan updates.\<close>

record counters =
  total_items :: nat
  items_with_docstrings :: nat
  missing_docstrings :: "str list"

definition init_counters :: counters where
  "init_counters = \<lparr>total_items = 0, items_with_docstrings = 0, missing_docstrings = []\<rparr>"

text \<open>\<open>match.group(1)\<close> inside an f-string: a group that took no part prints as \<open>None\<close>.\<close>

definition item_text :: "str option \<Rightarrow> str" where
  "item_text g = (case g of Some name \<Rightarrow> name | None \<Rightarrow> u ''None'')"

text \<open>\<open>f"{filepath}:{i+1} - {item_name}"\<close>\<close>

definition missing_entry :: "str \<Rightarrow> nat \<Rightarrow> str option \<Rightarrow> str" where
  "missing_entry filepath i item_name =
     filepath @ u '':'' @ show_nat (i + 1) @ u '' - '' @ item_text item_name"

text \<open>The body of \<open>for i, line in enumerate(lines)\<close>.\<close>

definition visit_line :: "str \<Rightarrow> str list \<Rightarrow> nat \<Rightarrow> str \<Rightarrow> counters \<Rightarrow> counters" where
  "visit_line filepath lines i line st =
     (case re_search export_pattern line of
        None \<Rightarrow> st
      | Some m \<Rightarrow>
          (let item_name = group1 m;
               st1 = st\<lparr>total_items := total_items st + 1\<rparr>
           in if has_docstring lines i
              then st1\<lparr>items_with_docstrings := items_with_docstrings st1 + 1\<rparr>
              else st1\<lparr>missing_docstrings :=
                     missing_docstrings st1 @ [missing_entry filepath i item_name]\<rparr>))"

fun scan_lines :: "str \<Rightarrow> str list \<Rightarrow> (nat \<times> str) list \<Rightarrow> counters \<Rightarrow> counters" where
  "scan_lines filepath lines [] st = st"
| "scan_lines filepath lines ((i, line) # rest) st =
     scan_lines filepath lines rest (visit_line filepath lines i line st)"

text \<open>
  The file system is what \<open>open(filepath, 'r', encoding='utf-8')\<close> and \<open>f.read()\<close> give
  for a path: the decoded text, or the exception raised.
\<close>

type_synonym filesystem = "str \<Rightarrow> error + str"

definition selected :: "str \<Rightarrow> bool" where
  "selected file \<longleftrightarrow> endswith file (u ''.ts'') \<or> endswith file (u ''.tsx'')"

text \<open>\<open>for file in files\<close>, for one \<open>root\<close>.\<close>

fun scan_files :: "filesystem \<Rightarrow> str \<Rightarrow> str list \<Rightarrow> counters \<Rightarrow> error + counters" where
  "scan_files fs root [] st = Inr st"
| "scan_files fs root (file # files) st =
     (if selected file then
        (let filepath = path_join root file in
         case fs filepath of
           Inl e \<Rightarrow> Inl e
         | Inr content \<Rightarrow>
             (let lines = split_lines content in
              scan_files fs root files (scan_lines filepath lines (enumerate 0 lines) st)))
      else scan_files fs root files st)"

text \<open>
  \<open>for root, _, files in os.walk(directory)\<close>: the argument is the sequence of triples
  that \<open>os.walk(directory)\<close> yields.
\<close>

type_synonym walk = "(str \<times> str list \<times> str list) list"

fun scan_walk :: "filesystem \<Rightarrow> walk \<Rightarrow> counters \<Rightarrow> error + counters" where
  "scan_walk fs [] st = Inr st"
| "scan_walk fs ((root, dirs, files) # rest) st =
     (case scan_files fs root files st of
        Inl e \<Rightarrow> Inl e
      | Inr st' \<Rightarrow> scan_walk fs rest st')"

section \<open>The report\<close>

text \<open>\<open>print(s)\<close> appends \<open>s\<close> and a line feed to the standard output.\<close>

definition print :: "str \<Rightarrow> str \<Rightarrow> str" where
  "print out s = out @ s @ [10]"

fun print_all :: "str \<Rightarrow> str list \<Rightarrow> str" where
  "print_all out [] = out"
| "print_all out (item # items) = print_all (print out item) items"

text \<open>
  \<open>coverage = (items_with_docstrings / total_items) * 100\<close> and its rendering
  \<open>f"{coverage:.2f}"\<close> are binary64 operations. The model takes the rendering of the
  quotient as the parameter \<open>fmt\<close> and keeps what the division does at zero.
\<close>

definition coverage_text :: "(nat \<Rightarrow> nat \<Rightarrow> str) \<Rightarrow> nat \<Rightarrow> nat \<Rightarrow> error + str" where
  "coverage_text fmt d t = (if t = 0 then Inl ZeroDivisionError else Inr (fmt d t))"

text \<open>
  The part of \<open>check_docstrings\<close> after the scan. The result is the text written to
  the standard output and the exception the call ends with, if any.
\<close>

definition report :: "(nat \<Rightarrow> nat \<Rightarrow> str) \<Rightarrow> counters \<Rightarrow> str \<times> error option" where
  "report fmt st =
     (if total_items st = 0 then (print [] (u ''No exported items found.''), None)
      else
        (case coverage_text fmt (items_with_docstrings st) (total_items st) of
           Inl e \<Rightarrow> ([], Some e)
         | Inr coverage \<Rightarrow>
             (let out1 = print [] (u ''Total exported items: '' @ show_nat (total_items st));
                  out2 = print out1
                    (u ''Items with docstrings: '' @ show_nat (items_with_docstrings st));
                  out3 = print out2 (u ''Docstring coverage: '' @ coverage @ u ''%'')
              in if missing_docstrings st \<noteq> []
                 then (print_all (print out3 ([10] @ u ''Missing docstrings:''))
                         (missing_docstrings st), None)
                 else (out3, None))))"

definition check_docstrings ::
  "(nat \<Rightarrow> nat \<Rightarrow> str) \<Rightarrow> filesystem \<Rightarrow> walk \<Rightarrow> str \<times> error option" where
  "check_docstrings fmt fs w =
     (case scan_walk fs w init_counters of
        Inl e \<Rightarrow> ([], Some e)
      | Inr st \<Rightarrow> report fmt st)"

section \<open>Vocabulary of the specification\<close>

text \<open>
  The kinds of line the documentation check tells apart, each decided on the line with
  the whitespace at both ends removed: a blank line, a line that closes a block comment or
  opens a \<open>///\<close> comment, a decorator line.
\<close>

definition blank :: "str \<Rightarrow> bool" where
  "blank l \<longleftrightarrow> strip l = []"

definition qualifies :: "str \<Rightarrow> bool" where
  "qualifies l \<longleftrightarrow> endswith (strip l) (u ''*/'') \<or> startswith (strip l) (u ''///'')"

definition decorator :: "str \<Rightarrow> bool" where
  "decorator l \<longleftrightarrow> startswith (strip l) (u ''@'')"

text \<open>
  The at most nine lines just before line \<open>i\<close> (counted from 0), the nearest first, cut
  off at the top of the file.
\<close>

definition window :: "str list \<Rightarrow> nat \<Rightarrow> str list" where
  "window lines i = take 9 (rev (take i lines))"

text \<open>The loop body of the check, run on the lines themselves.\<close>

fun verdict :: "str list \<Rightarrow> bool" where
  "verdict [] = False"
| "verdict (l # ls) =
     (if blank l then verdict ls
      else if qualifies l then True
      else if decorator l then verdict ls
      else False)"

text \<open>
  The reading of the check in which every blank line and every decorator line is passed
  over, and the first other line of the window decides.
\<close>

definition claimed_documented :: "str list \<Rightarrow> nat \<Rightarrow> bool" where
  "claimed_documented lines i =
     (case find (\<lambda>l. \<not> blank l \<and> \<not> decorator l) (window lines i) of
        Some l \<Rightarrow> qualifies l
      | None \<Rightarrow> False)"

definition skippable :: "str \<Rightarrow> bool" where
  "skippable l \<longleftrightarrow> blank l \<or> decorator l"

text \<open>
  What the loop does pass over: a blank line, and a decorator line that does not itself
  close a block comment. Every other line ends the loop.
\<close>

definition passed_over :: "str \<Rightarrow> bool" where
  "passed_over l \<longleftrightarrow> blank l \<or> (decorator l \<and> \<not> endswith (strip l) (u ''*/''))"

definition terminating :: "str \<Rightarrow> bool" where
  "terminating l \<longleftrightarrow> \<not> blank l \<and> (qualifies l \<or> \<not> decorator l)"

text \<open>
  Line \<open>i\<close> has a chain of \<open>k\<close> decorator lines just before it, and a qualifying comment
  line just before the chain.
\<close>

definition decorated_export :: "str list \<Rightarrow> nat \<Rightarrow> nat \<Rightarrow> bool" where
  "decorated_export lines i k \<longleftrightarrow>
     1 \<le> k \<and> k < i \<and> i < length lines \<and>
     list_all decorator (take k (drop (i - k) lines)) \<and>
     qualifies (lines ! (i - k - 1))"

section \<open>Export sites and the corpus\<close>

text \<open>
  An export site: the path of the file, the index of the line (counted from 0; the
  report prints it plus one), group 1 of the match, and the answer of the documentation
  check.
\<close>

datatype site = Site (site_file: str) (site_index: nat) (site_name: "str option")
  (site_documented: bool)

text \<open>
  The site of one line, if the pattern is found on it, and the sites of a file in the
  order of its lines.
\<close>

definition site_at :: "str \<Rightarrow> str list \<Rightarrow> nat \<times> str \<Rightarrow> site option" where
  "site_at filepath lines il =
     (case re_search export_pattern (snd il) of
        None \<Rightarrow> None
      | Some m \<Rightarrow> Some (Site filepath (fst il) (group1 m) (has_docstring lines (fst il))))"

definition sites_in :: "str \<Rightarrow> str list \<Rightarrow> (nat \<times> str) list \<Rightarrow> site list" where
  "sites_in filepath lines ils = List.map_filter (site_at filepath lines) ils"

definition file_sites :: "str \<Rightarrow> str list \<Rightarrow> site list" where
  "file_sites filepath lines = sites_in filepath lines (enumerate 0 lines)"

text \<open>
  The paths of the selected files, in the order the walk yields them, and the sites of
  the whole corpus in that order.
\<close>

definition selected_paths :: "walk \<Rightarrow> str list" where
  "selected_paths w =
     concat (map (\<lambda>(root, dirs, files). map (path_join root) (filter selected files)) w)"

definition sites_of_paths :: "filesystem \<Rightarrow> str list \<Rightarrow> site list" where
  "sites_of_paths fs ps =
     concat (map (\<lambda>p. case fs p of Inr content \<Rightarrow> file_sites p (split_lines content)
                       | Inl e \<Rightarrow> []) ps)"

definition corpus_sites :: "filesystem \<Rightarrow> walk \<Rightarrow> site list" where
  "corpus_sites fs w = sites_of_paths fs (selected_paths w)"


text \<open>
  The exception of the first selected file that cannot be opened or decoded.
\<close>

fun first_error :: "filesystem \<Rightarrow> str list \<Rightarrow> error option" where
  "first_error fs [] = None"
| "first_error fs (p # ps) = (case fs p of Inl e \<Rightarrow> Some e | Inr content \<Rightarrow> first_error fs ps)"

text \<open>
  The entry of a site in the list of missing docstrings, as the source formats it, and
  as a path, a colon, the line, an em dash (U+2014) between two spaces, and the name.
\<close>

definition entry_of :: "site \<Rightarrow> str" where
  "entry_of s =
     site_file s @ u '':'' @ show_nat (site_index s + 1) @ u '' - '' @ item_text (site_name s)"


text \<open>
  The counters after a list of sites has been counted.
\<close>

definition tally :: "counters \<Rightarrow> site list \<Rightarrow> counters" where
  "tally st ss =
     st\<lparr>total_items := total_items st + length ss,
        items_with_docstrings := items_with_docstrings st + length (filter site_documented ss),
        missing_docstrings :=
          missing_docstrings st @ map entry_of (filter (\<lambda>s. \<not> site_documented s) ss)\<rparr>"

text \<open>
  A small tree: \<^verbatim>\<open>src/a.ts\<close>, \<^verbatim>\<open>src/notes.md\<close> and \<^verbatim>\<open>src/lib/b.tsx\<close>, with three file
  systems over it: one whose files hold three exports, one whose second file cannot be
  decoded, and one whose files hold no export. \<open>sample_fmt\<close> is the rendering of one
  third as a percentage.
\<close>

definition sample_walk :: walk where
  "sample_walk = [(u ''src'', [u ''lib''], [u ''a.ts'', u ''notes.md'']), (u ''src/lib'', [], [u ''b.tsx''])]"

definition sample_fs :: filesystem where
  "sample_fs p =
     (if p = u ''src/a.ts'' then Inr (u ''/** A. */'' @ [10] @ u ''export class A {}'' @ [10] @
                                     u ''export const b = 1'')
      else if p = u ''src/lib/b.tsx'' then Inr (u ''export async function f() {}'' @ [10])
      else Inl OSError)"

definition broken_fs :: filesystem where
  "broken_fs p =
     (if p = u ''src/a.ts'' then Inr (u ''export const b = 1'')
      else if p = u ''src/lib/b.tsx'' then Inl UnicodeDecodeError
      else Inl OSError)"

definition empty_fs :: filesystem where
  "empty_fs p = Inr (u ''import x from y'' @ [10] @ u ''const z = x'')"

definition sample_fmt :: "nat \<Rightarrow> nat \<Rightarrow> str" where
  "sample_fmt d t = u ''33.33''"

section \<open>The shape of an export declaration\<close>









section \<open>Properties of the documentation check\<close>

lemmas ev = u_def startswith_def endswith_def isspace_def is_name_char_def upt_rec strip_def
  has_docstring_def range_down_def blank_def qualifies_def decorator_def window_def

lemma lookback_verdict: "lookback lines js = verdict (map (\<lambda>j. lines ! nat j) js)"
  by (induction js) (simp_all add: Let_def blank_def qualifies_def decorator_def)

lemma length_range_down: "length (range_down a b) = nat (a - b)"
  by (simp add: range_down_def)

lemma nth_range_down: "k < nat (a - b) \<Longrightarrow> range_down a b ! k = a - int k"
  by (simp add: range_down_def)

lemma lookback_range_bounds:
  assumes "j \<in> set (range_down (int i - 1) (max (- 1) (int i - 10)))"
  shows "0 \<le> j \<and> j < int i \<and> int i - 9 \<le> j"
  using assms by (auto simp: range_down_def)

lemma window_eq:
  assumes "i \<le> length lines"
  shows "map (\<lambda>j. lines ! nat j) (range_down (int i - 1) (max (- 1) (int i - 10)))
         = window lines i"
proof (rule nth_equalityI)
  show len: "length (map (\<lambda>j. lines ! nat j) (range_down (int i - 1) (max (- 1) (int i - 10))))
        = length (window lines i)"
    using assms by (simp add: length_range_down window_def)
  fix k
  assume "k < length (map (\<lambda>j. lines ! nat j) (range_down (int i - 1) (max (- 1) (int i - 10))))"
  then have k: "k < nat (int i - 1 - max (- 1) (int i - 10))"
    by (simp add: length_range_down)
  then have ki: "k < i" and k9: "k < 9" by auto
  have "map (\<lambda>j. lines ! nat j) (range_down (int i - 1) (max (- 1) (int i - 10))) ! k
        = lines ! nat (int i - 1 - int k)"
    using k by (simp add: length_range_down nth_range_down)
  also have "nat (int i - 1 - int k) = i - 1 - k" using ki by simp
  also have "lines ! (i - 1 - k) = window lines i ! k"
    using ki k9 assms by (simp add: window_def rev_nth)
  finally show "map (\<lambda>j. lines ! nat j) (range_down (int i - 1) (max (- 1) (int i - 10))) ! k
        = window lines i ! k" .
qed

lemma has_docstring_window:
  "i \<le> length lines \<Longrightarrow> has_docstring lines i = verdict (window lines i)"
  by (simp add: has_docstring_def lookback_verdict window_eq)

lemma decorator_not_line_comment: "decorator l \<Longrightarrow> \<not> startswith (strip l) (u ''///'')"
  by (cases "strip l") (auto simp: decorator_def startswith_def u_def)

lemma passed_over_iff: "passed_over l \<longleftrightarrow> blank l \<or> (decorator l \<and> \<not> qualifies l)"
  using decorator_not_line_comment by (auto simp: passed_over_def qualifies_def)

lemma terminating_iff: "terminating l \<longleftrightarrow> \<not> passed_over l"
  by (auto simp: terminating_def passed_over_iff)

lemma verdict_find:
  "verdict ws = (case find (\<lambda>l. \<not> passed_over l) ws of Some l \<Rightarrow> qualifies l | None \<Rightarrow> False)"
proof (induction ws)
  case Nil
  show ?case by simp
next
  case (Cons l ws)
  have "blank l \<Longrightarrow> \<not> qualifies l"
    by (simp add: blank_def qualifies_def endswith_def startswith_def u_def)
  then show ?case using Cons by (auto simp: passed_over_iff)
qed

lemma verdict_passed_over: "list_all passed_over ws \<Longrightarrow> \<not> verdict ws"
  by (induction ws) (auto simp: passed_over_iff)

lemma verdict_decorators:
  "k < length ws \<Longrightarrow> \<forall>j<k. decorator (ws ! j) \<Longrightarrow> qualifies (ws ! k) \<Longrightarrow> verdict ws"
proof (induction ws arbitrary: k)
  case Nil
  then show ?case by simp
next
  case (Cons l ws)
  show ?case
  proof (cases k)
    case 0
    with Cons.prems have q: "qualifies l" by simp
    then have "\<not> blank l"
      by (auto simp: blank_def qualifies_def endswith_def startswith_def u_def)
    with q show ?thesis by simp
  next
    case (Suc k')
    with Cons.prems have "k' < length ws" "\<forall>j<k'. decorator (ws ! j)" "qualifies (ws ! k')"
      by auto
    then have v: "verdict ws" by (rule Cons.IH)
    from Suc Cons.prems have "decorator l" by auto
    with v show ?thesis by simp
  qed
qed

lemma length_window: "i \<le> length lines \<Longrightarrow> length (window lines i) = min 9 i"
  by (simp add: window_def)

lemma nth_window:
  "i \<le> length lines \<Longrightarrow> k < 9 \<Longrightarrow> k < i \<Longrightarrow> window lines i ! k = lines ! (i - 1 - k)"
  by (simp add: window_def rev_nth)

lemma window_cong:
  assumes "i < length lines" and "i < length lines'"
    and "\<forall>j<i. i \<le> j + 9 \<longrightarrow> lines' ! j = lines ! j"
  shows "window lines' i = window lines i"
proof (rule nth_equalityI)
  show "length (window lines' i) = length (window lines i)"
    using assms by (simp add: length_window)
  fix k assume "k < length (window lines' i)"
  then have k: "k < 9" "k < i" using assms by (simp_all add: length_window)
  then have "lines' ! (i - 1 - k) = lines ! (i - 1 - k)" using assms(3) by simp
  then show "window lines' i ! k = window lines i ! k"
    using k assms by (simp add: nth_window)
qed

lemma window_passed_over:
  assumes "i < length lines" and "\<forall>m<i. i \<le> m + 9 \<longrightarrow> passed_over (lines ! m)"
  shows "list_all passed_over (window lines i)"
  unfolding list_all_length
proof (intro allI impI)
  fix k assume "k < length (window lines i)"
  then have k: "k < 9" "k < i" using assms by (simp_all add: length_window)
  then have "passed_over (lines ! (i - 1 - k))" using assms(2) by simp
  then show "passed_over (window lines i ! k)" using k assms by (simp add: nth_window)
qed

lemma window_append:
  "9 \<le> length mid \<Longrightarrow>
   window (pre @ mid @ decl # post) (length pre + length mid) = take 9 (rev mid)"
  by (simp add: window_def)

lemma replicate_9: "replicate 9 x = [x, x, x, x, x, x, x, x, x]"
  by (simp add: numeral_eq_Suc)

text \<open>
  C1, as stated, fails: a decorator line that closes a block comment is not passed over,
  it documents the export. The file is \<^verbatim>\<open>@Component() /* root */\<close> followed by
  \<^verbatim>\<open>export class App {}\<close>; the check answers documented, while no line of the window
  is other than blank or decorator.
\<close>

theorem decorator_closing_comment_counterexample:
  "has_docstring [u ''@Component() /* root */'', u ''export class App {}''] 1 \<and>
   \<not> claimed_documented [u ''@Component() /* root */'', u ''export class App {}''] 1"
  by (simp add: ev claimed_documented_def)

text \<open>
  C1 (amended): for an export on line \<open>i\<close>, the check answers documented if and only if,
  among the at most nine lines just before line \<open>i\<close>, the first line that is neither
  blank after trimming nor a decorator line that does not end with \<^verbatim>\<open>*/\<close> ends with
  \<^verbatim>\<open>*/\<close> or begins with \<^verbatim>\<open>///\<close>; when the window has no such line the answer is
  undocumented.
\<close>

theorem has_docstring_first_deciding_line:
  "i < length lines \<Longrightarrow>
   has_docstring lines i =
     (case find (\<lambda>l. \<not> passed_over l) (window lines i) of
        Some l \<Rightarrow> qualifies l
      | None \<Rightarrow> False)"
  by (simp add: has_docstring_window verdict_find)

text \<open>
  The amended C1 on a file with a comment, a decorator and a blank line before the
  export.
\<close>

theorem has_docstring_first_deciding_line_witness:
  "3 < length [u ''/** doc */'', u ''  @Injectable()'', [], u ''export class A {}''] \<and>
   find (\<lambda>l. \<not> passed_over l)
     (window [u ''/** doc */'', u ''  @Injectable()'', [], u ''export class A {}''] 3)
     = Some (u ''/** doc */'') \<and>
   has_docstring [u ''/** doc */'', u ''  @Injectable()'', [], u ''export class A {}''] 3"
proof -
  let ?L = "[u ''/** doc */'', u ''  @Injectable()'', [], u ''export class A {}'']"
  have len: "3 < length ?L" by simp
  have first: "find (\<lambda>l. \<not> passed_over l) (window ?L 3) = Some (u ''/** doc */'')"
    by (simp add: ev passed_over_def)
  have "qualifies (u ''/** doc */'')" by (simp add: ev)
  with has_docstring_first_deciding_line [OF len] first have "has_docstring ?L 3"
    by (simp only: option.case)
  with len first show ?thesis by blast
qed

text \<open>
  C2, as stated, fails for a chain of nine decorators: the comment above the chain is the
  tenth line before the export and is not read.
\<close>

theorem nine_decorators_counterexample:
  "decorated_export
     (u ''/** The store. */'' # replicate 9 (u ''@Tag()'') @ [u ''export class Store {}'']) 10 9 \<and>
   \<not> has_docstring
     (u ''/** The store. */'' # replicate 9 (u ''@Tag()'') @ [u ''export class Store {}'']) 10"
  by (simp add: replicate_9 decorated_export_def ev)

text \<open>
  C2 (amended): an export just after a chain of one to eight decorator lines, the chain
  itself just after a qualifying comment line, is documented.
\<close>

theorem decorator_chain_documented:
  assumes "decorated_export lines i k" and "k \<le> 8"
  shows "has_docstring lines i"
proof -
  from assms(1) have k: "1 \<le> k" "k < i" and i: "i < length lines"
    and ds: "list_all decorator (take k (drop (i - k) lines))"
    and q: "qualifies (lines ! (i - k - 1))"
    by (simp_all add: decorated_export_def)
  have len: "k < length (window lines i)"
    using k i assms(2) by (simp add: length_window)
  have "\<forall>j<k. decorator (window lines i ! j)"
  proof (intro allI impI)
    fix j assume j: "j < k"
    then have "k - 1 - j < k" using k by simp
    with ds k i have "decorator (take k (drop (i - k) lines) ! (k - 1 - j))"
      by (simp add: list_all_length)
    moreover have "take k (drop (i - k) lines) ! (k - 1 - j) = lines ! (i - 1 - j)"
      using j k i by simp
    ultimately have "decorator (lines ! (i - 1 - j))" by simp
    then show "decorator (window lines i ! j)"
      using j k i assms(2) by (simp add: nth_window)
  qed
  moreover have "qualifies (window lines i ! k)"
    using q k i assms(2) by (simp add: nth_window)
  ultimately have "verdict (window lines i)"
    using len by (blast intro: verdict_decorators)
  then show ?thesis using i by (simp add: has_docstring_window)
qed

text \<open>
  The amended C2 on a chain of two decorators.
\<close>

theorem decorator_chain_documented_witness:
  "decorated_export
     [u ''/// The store.'', u ''@Injectable()'', u ''@Tag()'', u ''export class Store {}''] 3 2 \<and>
   has_docstring
     [u ''/// The store.'', u ''@Injectable()'', u ''@Tag()'', u ''export class Store {}''] 3"
  using decorator_chain_documented [of "[u ''/// The store.'', u ''@Injectable()'', u ''@Tag()'',
    u ''export class Store {}'']" 3 2]
  by (simp add: decorated_export_def ev)

text \<open>
  C3: the loop visits at most nine indices, all of them among the nine lines just before
  the export and none before the top of the file; the answer is the same for any two files
  that agree on those lines; and a qualifying comment more than nine lines before the
  export, with no terminating line between it and the export, leaves the export
  undocumented.
\<close>

theorem lookback_bounded:
  assumes "i < length lines"
  shows "length (range_down (int i - 1) (max (- 1) (int i - 10))) \<le> 9 \<and>
    (\<forall>j \<in> set (range_down (int i - 1) (max (- 1) (int i - 10))).
        0 \<le> j \<and> int i - 9 \<le> j \<and> j < int i) \<and>
    (\<forall>lines'. i < length lines' \<and> (\<forall>j<i. i \<le> j + 9 \<longrightarrow> lines' ! j = lines ! j) \<longrightarrow>
        has_docstring lines' i = has_docstring lines i) \<and>
    (\<forall>j. j + 9 < i \<and> qualifies (lines ! j) \<and>
         (\<forall>m. j < m \<and> m < i \<longrightarrow> \<not> terminating (lines ! m)) \<longrightarrow>
        \<not> has_docstring lines i)"
proof -
  have a: "length (range_down (int i - 1) (max (- 1) (int i - 10))) \<le> 9"
    by (simp add: length_range_down)
  have b: "\<forall>j \<in> set (range_down (int i - 1) (max (- 1) (int i - 10))).
        0 \<le> j \<and> int i - 9 \<le> j \<and> j < int i"
    using lookback_range_bounds by blast
  have c: "has_docstring lines' i = has_docstring lines i"
    if "i < length lines' \<and> (\<forall>j<i. i \<le> j + 9 \<longrightarrow> lines' ! j = lines ! j)" for lines'
  proof -
    from that have l: "i < length lines'"
      and e: "\<forall>j<i. i \<le> j + 9 \<longrightarrow> lines' ! j = lines ! j" by blast+
    have "window lines' i = window lines i"
      using assms l e by (rule window_cong)
    then show ?thesis using assms l by (simp add: has_docstring_window)
  qed
  have d: "\<not> has_docstring lines i"
    if "j + 9 < i \<and> qualifies (lines ! j) \<and>
         (\<forall>m. j < m \<and> m < i \<longrightarrow> \<not> terminating (lines ! m))" for j
  proof -
    from that have far: "j + 9 < i"
      and nt: "\<forall>m. j < m \<and> m < i \<longrightarrow> \<not> terminating (lines ! m)" by blast+
    have "\<forall>m<i. i \<le> m + 9 \<longrightarrow> passed_over (lines ! m)"
    proof (intro allI impI)
      fix m assume "m < i" "i \<le> m + 9"
      with far have "j < m \<and> m < i" by simp
      with nt have "\<not> terminating (lines ! m)" by blast
      then show "passed_over (lines ! m)" by (simp add: terminating_iff)
    qed
    with assms have "list_all passed_over (window lines i)"
      by (rule window_passed_over)
    then have "\<not> verdict (window lines i)" by (rule verdict_passed_over)
    then show ?thesis using assms by (simp add: has_docstring_window)
  qed
  from a b c d show ?thesis by blast
qed

text \<open>
  C3 on a file whose comment is ten lines before the export, with nine empty lines
  between.
\<close>

theorem lookback_bounded_witness:
  "\<not> has_docstring
     [u ''/** The id. */'', [], [], [], [], [], [], [], [], [], u ''export const id = 1''] 10"
proof -
  let ?L = "[u ''/** The id. */'', [], [], [], [], [], [], [], [], [],
             u ''export const id = 1'']"
  have "10 < length ?L" by simp
  from lookback_bounded [OF this]
  have "0 + 9 < (10::nat) \<and> qualifies (?L ! 0) \<and>
          (\<forall>m. 0 < m \<and> m < 10 \<longrightarrow> \<not> terminating (?L ! m)) \<longrightarrow> \<not> has_docstring ?L 10"
    by blast
  moreover have "qualifies (?L ! 0)" by (simp add: ev)
  moreover have "\<forall>m. 0 < m \<and> m < 10 \<longrightarrow> \<not> terminating (?L ! m)"
  proof (intro allI impI)
    fix m :: nat assume "0 < m \<and> m < 10"
    then have "m \<in> {1, 2, 3, 4, 5, 6, 7, 8, 9}" by auto
    then show "\<not> terminating (?L ! m)"
      by (auto simp: terminating_def blank_def strip_def)
  qed
  ultimately show ?thesis by simp
qed

text \<open>
  C10, as stated, fails when one of the nine lines closes a block comment: the nine lines
  before the export are a decorator line and eight empty lines, and the export is
  documented by the decorator line.
\<close>

theorem nine_skippable_lines_counterexample:
  "list_all skippable (take 9 (drop 1
     [u ''/** The id. */'', u ''@Input() /* id */'', [], [], [], [], [], [], [], [],
      u ''export const id = 1''])) \<and>
   qualifies ([u ''/** The id. */'', u ''@Input() /* id */'', [], [], [], [], [], [], [], [],
      u ''export const id = 1''] ! 0) \<and>
   has_docstring
     [u ''/** The id. */'', u ''@Input() /* id */'', [], [], [], [], [], [], [], [],
      u ''export const id = 1''] 10"
  by (simp add: skippable_def ev)

text \<open>
  C10 (amended): when at least nine lines lie between the top part of a file and an
  export, whatever they are, the answer does not depend on the top part; and when each of
  them is blank or a decorator line that does not end with \<^verbatim>\<open>*/\<close>, the export is
  undocumented, whatever the top part holds.
\<close>

theorem window_exhausted_undocumented:
  assumes "9 \<le> length mid"
  shows "has_docstring (pre @ mid @ decl # post) (length pre + length mid)
           = has_docstring (mid @ [decl]) (length mid) \<and>
         (list_all passed_over mid \<longrightarrow>
            \<not> has_docstring (pre @ mid @ decl # post) (length pre + length mid))"
proof -
  have w1: "window (pre @ mid @ decl # post) (length pre + length mid) = take 9 (rev mid)"
    using assms by (rule window_append)
  have "window ([] @ mid @ decl # []) (length ([]::str list) + length mid) = take 9 (rev mid)"
    using assms by (rule window_append)
  then have w2: "window (mid @ [decl]) (length mid) = take 9 (rev mid)" by simp
  have h1: "has_docstring (pre @ mid @ decl # post) (length pre + length mid)
              = verdict (take 9 (rev mid))"
    using w1 by (simp add: has_docstring_window)
  have h2: "has_docstring (mid @ [decl]) (length mid) = verdict (take 9 (rev mid))"
    using w2 by (simp add: has_docstring_window)
  have "\<not> verdict (take 9 (rev mid))" if "list_all passed_over mid"
  proof -
    have "set (take 9 (rev mid)) \<subseteq> set mid"
      using set_take_subset [of 9 "rev mid"] by simp
    with that have "list_all passed_over (take 9 (rev mid))"
      by (auto simp: list_all_iff)
    then show ?thesis by (rule verdict_passed_over)
  qed
  with h1 h2 show ?thesis by simp
qed

text \<open>
  The amended C10 with a comment just before nine blank and decorator lines.
\<close>

theorem window_exhausted_undocumented_witness:
  "\<not> has_docstring
     ([u ''/** The id. */''] @
      [u ''@Input()'', [], u ''  '', [], u ''@Tag()'', [], [], [], []] @
      u ''export const id = 1'' # []) 10"
proof -
  have "9 \<le> length [u ''@Input()'', [], u ''  '', [], u ''@Tag()'', [], [], [], []]"
    by simp
  from window_exhausted_undocumented [OF this, of "[u ''/** The id. */'']" "u ''export const id = 1''" "[]"]
  show ?thesis by (simp add: passed_over_def ev)
qed

section \<open>Properties of the scan and of the report\<close>

lemma tally_Nil: "tally st [] = st"
  by (simp add: tally_def)

lemma tally_append: "tally (tally st a) b = tally st (a @ b)"
  by (simp add: tally_def)

lemma visit_line_tally:
  "visit_line filepath lines i line st =
     tally st (case site_at filepath lines (i, line) of None \<Rightarrow> [] | Some s \<Rightarrow> [s])"
  by (cases "re_search export_pattern line")
     (simp_all add: visit_line_def site_at_def tally_def Let_def entry_of_def missing_entry_def)

lemma scan_lines_tally:
  "scan_lines filepath lines ils st = tally st (sites_in filepath lines ils)"
proof (induction ils arbitrary: st)
  case Nil
  show ?case by (simp add: sites_in_def map_filter_simps tally_Nil)
next
  case (Cons il ils)
  obtain i line where il: "il = (i, line)" by (cases il)
  have "sites_in filepath lines (il # ils) =
          (case site_at filepath lines (i, line) of None \<Rightarrow> [] | Some s \<Rightarrow> [s])
          @ sites_in filepath lines ils"
    by (simp add: sites_in_def map_filter_simps il split: option.splits)
  then show ?case
    by (simp add: il Cons.IH visit_line_tally tally_append)
qed

lemma first_error_append:
  "first_error fs (a @ b) = (case first_error fs a of Some e \<Rightarrow> Some e | None \<Rightarrow> first_error fs b)"
  by (induction a) (simp_all split: sum.splits)

lemma sites_of_paths_append:
  "sites_of_paths fs (a @ b) = sites_of_paths fs a @ sites_of_paths fs b"
  by (simp add: sites_of_paths_def)

lemma scan_files_tally:
  "scan_files fs root files st =
     (case first_error fs (map (path_join root) (filter selected files)) of
        Some e \<Rightarrow> Inl e
      | None \<Rightarrow> Inr (tally st (sites_of_paths fs (map (path_join root) (filter selected files)))))"
proof (induction files arbitrary: st)
  case Nil
  show ?case by (simp add: sites_of_paths_def tally_Nil)
next
  case (Cons fl files)
  let ?ps = "map (path_join root) (filter selected files)"
  show ?case
  proof (cases "selected fl")
    case False
    have a: "scan_files fs root (fl # files) st = scan_files fs root files st"
      using False by simp
    have b: "filter selected (fl # files) = filter selected files"
      using False by simp
    show ?thesis unfolding a b by (rule Cons.IH)
  next
    case True
    then have ps: "map (path_join root) (filter selected (fl # files)) = path_join root fl # ?ps"
      by simp
    show ?thesis
    proof (cases "fs (path_join root fl)")
      case (Inl e)
      with True have "scan_files fs root (fl # files) st = Inl e" by simp
      moreover from Inl have "first_error fs (path_join root fl # ?ps) = Some e" by simp
      ultimately show ?thesis unfolding ps by simp
    next
      case (Inr content)
      let ?here = "file_sites (path_join root fl) (split_lines content)"
      from True Inr have "scan_files fs root (fl # files) st =
          scan_files fs root files (tally st ?here)"
        by (simp add: Let_def scan_lines_tally file_sites_def)
      also have "\<dots> = (case first_error fs ?ps of Some e \<Rightarrow> Inl e
                       | None \<Rightarrow> Inr (tally (tally st ?here) (sites_of_paths fs ?ps)))"
        by (rule Cons.IH)
      finally have step: "scan_files fs root (fl # files) st =
          (case first_error fs ?ps of Some e \<Rightarrow> Inl e
           | None \<Rightarrow> Inr (tally st (?here @ sites_of_paths fs ?ps)))"
        by (simp only: tally_append)
      have fe: "first_error fs (path_join root fl # ?ps) = first_error fs ?ps"
        using Inr by simp
      have sp: "sites_of_paths fs (path_join root fl # ?ps) = ?here @ sites_of_paths fs ?ps"
        using Inr by (simp add: sites_of_paths_def)
      show ?thesis unfolding ps fe sp by (rule step)
    qed
  qed
qed

lemma scan_walk_tally:
  "scan_walk fs w st =
     (case first_error fs (selected_paths w) of
        Some e \<Rightarrow> Inl e
      | None \<Rightarrow> Inr (tally st (corpus_sites fs w)))"
proof (induction w arbitrary: st)
  case Nil
  show ?case by (simp add: selected_paths_def corpus_sites_def sites_of_paths_def tally_Nil)
next
  case (Cons t w)
  obtain root dirs files where t: "t = (root, dirs, files)" by (cases t)
  let ?ps = "map (path_join root) (filter selected files)"
  have sp: "selected_paths (t # w) = ?ps @ selected_paths w"
    by (simp add: selected_paths_def t)
  have cs: "corpus_sites fs (t # w) = sites_of_paths fs ?ps @ corpus_sites fs w"
    by (simp only: corpus_sites_def sp sites_of_paths_append)
  show ?case
  proof (cases "first_error fs ?ps")
    case (Some e)
    then have "scan_walk fs (t # w) st = Inl e"
      by (simp add: t scan_files_tally)
    moreover from Some have "first_error fs (selected_paths (t # w)) = Some e"
      by (simp only: sp first_error_append option.case)
    ultimately show ?thesis by simp
  next
    case None
    then have "scan_walk fs (t # w) st = scan_walk fs w (tally st (sites_of_paths fs ?ps))"
      by (simp add: t scan_files_tally)
    also have "\<dots> = (case first_error fs (selected_paths w) of Some e \<Rightarrow> Inl e
        | None \<Rightarrow> Inr (tally (tally st (sites_of_paths fs ?ps)) (corpus_sites fs w)))"
      by (rule Cons.IH)
    finally have step: "scan_walk fs (t # w) st =
        (case first_error fs (selected_paths w) of Some e \<Rightarrow> Inl e
         | None \<Rightarrow> Inr (tally st (sites_of_paths fs ?ps @ corpus_sites fs w)))"
      by (simp only: tally_append)
    have fe: "first_error fs (selected_paths (t # w)) = first_error fs (selected_paths w)"
      using None by (simp only: sp first_error_append option.case)
    show ?thesis unfolding fe cs by (rule step)
  qed
qed

lemmas ev_scan = ev selected_paths_def selected_def path_join_def sample_walk_def sample_fs_def
  broken_fs_def empty_fs_def corpus_sites_def sites_of_paths_def file_sites_def sites_in_def
  site_at_def map_filter_simps enumerate_simps re_search_def search_from.simps
  export_pattern_def decl_kind_def

lemma sample_paths: "selected_paths sample_walk = [u ''src/a.ts'', u ''src/lib/b.tsx'']"
  by (simp add: selected_paths_def selected_def path_join_def sample_walk_def u_def
      endswith_def startswith_def)

lemma sample_sites:
  "corpus_sites sample_fs sample_walk =
     [Site (u ''src/a.ts'') 1 (Some (u ''A'')) True,
      Site (u ''src/a.ts'') 2 (Some (u ''b'')) False,
      Site (u ''src/lib/b.tsx'') 0 (Some (u ''f'')) False]"
  unfolding corpus_sites_def sample_paths
  by (simp add: ev_scan)


lemma sorted_site_index: "sorted_wrt (<) (map site_index (file_sites p lines))"
proof -
  have m: "map site_index (sites_in p lines ils)
           = map fst (filter (\<lambda>il. site_at p lines il \<noteq> None) ils)" for ils
    by (induction ils) (auto simp: sites_in_def map_filter_simps site_at_def split: option.splits)
  have "sorted_wrt (<) (map fst (enumerate 0 lines))"
    by (simp add: map_fst_enumerate)
  moreover have "sorted_wrt (<) (map fst (enumerate 0 lines))
                 = sorted_wrt (\<lambda>a b. fst a < fst b) (enumerate 0 lines)"
    by (rule sorted_wrt_map)
  ultimately have "sorted_wrt (\<lambda>a b. fst a < fst b) (enumerate 0 lines)"
    by blast
  then have "sorted_wrt (\<lambda>a b. fst a < fst b)
               (filter (\<lambda>il. site_at p lines il \<noteq> None) (enumerate 0 lines))"
    by (rule sorted_wrt_filter)
  then show ?thesis by (simp add: file_sites_def m sorted_wrt_map)
qed

lemma first_error_Some:
  "first_error fs ps = Some e \<Longrightarrow> \<exists>q \<in> set ps. fs q = Inl e"
  by (induction ps) (auto split: sum.splits)

lemma first_error_None:
  "first_error fs ps = None \<longleftrightarrow> (\<forall>q \<in> set ps. \<exists>content. fs q = Inr content)"
  by (induction ps) (auto split: sum.splits)

lemma report_no_items:
  "total_items st = 0 \<Longrightarrow> report fmt st = (u ''No exported items found.'' @ [10], None)"
  by (simp add: report_def print_def)


lemma tally_init:
  "tally init_counters ss =
     \<lparr>total_items = length ss,
      items_with_docstrings = length (filter site_documented ss),
      missing_docstrings = map entry_of (filter (\<lambda>s. \<not> site_documented s) ss)\<rparr>"
  by (simp add: tally_def init_counters_def)

text \<open>
  C4: when the scan ends without an exception, the documented count is at most the
  total, the list of missing docstrings has total minus documented entries, the total is
  the number of export sites of the corpus, the documented count is the number of those
  the check accepts, and the list holds the entries of exactly the others, in the order
  of the corpus: files in the order of the walk, each file's sites by ascending line,
  nothing reordered and nothing dropped.
\<close>

theorem counters_match_sites:
  assumes "scan_walk fs w init_counters = Inr st"
  shows "items_with_docstrings st \<le> total_items st \<and>
         length (missing_docstrings st) = total_items st - items_with_docstrings st \<and>
         total_items st = length (corpus_sites fs w) \<and>
         items_with_docstrings st = length (filter site_documented (corpus_sites fs w)) \<and>
         missing_docstrings st =
           map entry_of (filter (\<lambda>s. \<not> site_documented s) (corpus_sites fs w)) \<and>
         (\<forall>p lines. sorted_wrt (<) (map site_index (file_sites p lines)))"
proof -
  let ?S = "corpus_sites fs w"
  from assms have st: "st = tally init_counters ?S"
    by (simp add: scan_walk_tally split: option.splits)
  have t: "total_items st = length ?S"
    and d: "items_with_docstrings st = length (filter site_documented ?S)"
    and m: "missing_docstrings st = map entry_of (filter (\<lambda>s. \<not> site_documented s) ?S)"
    by (simp_all add: st tally_init)
  have sum: "length (filter site_documented ?S) + length (filter (\<lambda>s. \<not> site_documented s) ?S)
             = length ?S"
    by (rule sum_length_filter_compl)
  have le: "items_with_docstrings st \<le> total_items st"
    unfolding t d by (rule length_filter_le)
  have len: "length (missing_docstrings st) = total_items st - items_with_docstrings st"
    unfolding t d m using sum by simp
  from le len t d m sorted_site_index show ?thesis by blast
qed

text \<open>
  C4 on the sample tree: three exports, one documented, the two others listed in order.
\<close>

theorem counters_match_sites_witness:
  "scan_walk sample_fs sample_walk init_counters =
     Inr \<lparr>total_items = 3, items_with_docstrings = 1,
          missing_docstrings = [u ''src/a.ts:3 - b'', u ''src/lib/b.tsx:1 - f'']\<rparr>"
proof -
  have run: "scan_walk sample_fs sample_walk init_counters =
      Inr (tally init_counters (corpus_sites sample_fs sample_walk))"
    by (simp add: scan_walk_tally sample_paths sample_fs_def u_def)
  from counters_match_sites [OF run]
  have "total_items (tally init_counters (corpus_sites sample_fs sample_walk)) = 3"
    and "items_with_docstrings (tally init_counters (corpus_sites sample_fs sample_walk)) = 1"
    and "missing_docstrings (tally init_counters (corpus_sites sample_fs sample_walk))
           = [u ''src/a.ts:3 - b'', u ''src/lib/b.tsx:1 - f'']"
    by (simp_all add: sample_sites entry_of_def item_text_def show_nat.simps u_def)
  then have "tally init_counters (corpus_sites sample_fs sample_walk) =
      \<lparr>total_items = 3, items_with_docstrings = 1,
       missing_docstrings = [u ''src/a.ts:3 - b'', u ''src/lib/b.tsx:1 - f'']\<rparr>"
    by (cases "tally init_counters (corpus_sites sample_fs sample_walk)") simp
  with run show ?thesis by simp
qed

text \<open>
  C7: when every selected file can be read and the corpus has no export site, the run
  prints the single line \<^verbatim>\<open>No exported items found.\<close>, whatever the rendering of the
  percentage would be, and ends without an exception.
\<close>

theorem no_exports_notice:
  assumes "first_error fs (selected_paths w) = None" and "corpus_sites fs w = []"
  shows "check_docstrings fmt fs w = (u ''No exported items found.'' @ [10], None)"
proof -
  from assms have "scan_walk fs w init_counters = Inr (tally init_counters [])"
    by (simp add: scan_walk_tally)
  then have "check_docstrings fmt fs w = report fmt init_counters"
    by (simp add: check_docstrings_def tally_Nil)
  then show ?thesis by (simp add: report_no_items init_counters_def)
qed

text \<open>
  C7 on the sample tree with files that hold no export.
\<close>

theorem no_exports_notice_witness:
  "check_docstrings sample_fmt empty_fs sample_walk = (u ''No exported items found.'' @ [10], None)"
proof -
  have a: "first_error empty_fs (selected_paths sample_walk) = None"
    by (simp add: sample_paths empty_fs_def)
  have b: "corpus_sites empty_fs sample_walk = []"
    unfolding corpus_sites_def sample_paths by (simp add: ev_scan)
  from no_exports_notice [OF a b] show ?thesis .
qed

text \<open>
  C9: when a selected file cannot be opened or decoded, the run ends with the exception
  of the first such file and has printed nothing.
\<close>

theorem read_failure_propagates:
  assumes "p \<in> set (selected_paths w)" and "fs p = Inl e"
  shows "\<exists>e'. first_error fs (selected_paths w) = Some e' \<and>
              check_docstrings fmt fs w = ([], Some e')"
proof -
  have "\<not> (\<forall>q \<in> set (selected_paths w). \<exists>content. fs q = Inr content)"
    using assms by force
  then have "first_error fs (selected_paths w) \<noteq> None"
    by (simp only: first_error_None not_False_eq_True)
  then obtain e' where fe: "first_error fs (selected_paths w) = Some e'" by blast
  then have "scan_walk fs w init_counters = Inl e'" by (simp add: scan_walk_tally)
  then have "check_docstrings fmt fs w = ([], Some e')" by (simp add: check_docstrings_def)
  with fe show ?thesis by blast
qed

text \<open>
  C9 on the sample tree whose second file cannot be decoded.
\<close>

theorem read_failure_propagates_witness:
  "check_docstrings sample_fmt broken_fs sample_walk = ([], Some UnicodeDecodeError)"
proof -
  have a: "u ''src/lib/b.tsx'' \<in> set (selected_paths sample_walk)"
    by (simp add: sample_paths)
  have b: "broken_fs (u ''src/lib/b.tsx'') = Inl UnicodeDecodeError"
    by (simp add: broken_fs_def u_def)
  have c: "first_error broken_fs (selected_paths sample_walk) = Some UnicodeDecodeError"
    by (simp add: sample_paths broken_fs_def u_def)
  from read_failure_propagates [of "u ''src/lib/b.tsx''" sample_walk broken_fs UnicodeDecodeError sample_fmt,
      OF a b] c
  show ?thesis by auto
qed




section \<open>Properties of the export pattern\<close>

lemma startswith_Nil: "startswith s []"
  by (simp add: startswith_def)


















































end
